theory Spec2Isabelle
  imports Main "HOL-Library.AList"
begin

section \<open>Zones and the zone manager of ui/status.py\<close>

text \<open>
  The module is Python 2 (\<^verbatim>\<open>basestring\<close>; \<^verbatim>\<open>filter\<close> returns a list; \<^verbatim>\<open>/\<close> on
  integers is floor division; \<^verbatim>\<open>None\<close> compares below every integer).

  Python values are modelled as follows.
  \<^item> A zone value is any equatable object, \<^verbatim>\<open>None\<close> included: \<open>'v option\<close>, with
    \<open>None\<close> for Python's \<^verbatim>\<open>None\<close>.
  \<^item> An image is an object with a \<^verbatim>\<open>width\<close> and a \<^verbatim>\<open>height\<close>; \<open>ident\<close> stands
    for the identity of the object, so that equal images are the same object.
  \<^item> The callbacks of a zone read (and may change) the world outside the module, of
    type \<open>'w\<close>. When asked to, a callback receives the zone itself; it then sees the
    zone's attributes and is taken not to assign them. Callbacks are taken to return
    rather than raise, and the image callback to return an image.
  \<^item> What the module does to the outside is recorded in a trace: every invocation of
    an image callback, every warning that is logged, every paste onto the canvas and
    every \<^verbatim>\<open>display()\<close>.
\<close>

subsection \<open>Data\<close>

record img =
  ident :: nat
  width :: int
  height :: int

datatype 'v event =
    ImageCb "'v option"
  | Warning string
  | Paste string "img option" int int
  | Display

text \<open>
  \<open>Paste k image x y\<close> is \<^verbatim>\<open>self.c.paste(image, (x, y))\<close>; the key \<open>k\<close> of the zone
  whose image is pasted is written down beside it.
\<close>

record ('v, 'w) env =
  world :: 'w
  trace :: "'v event list"

record 'v zone_data =
  value_z :: "'v option"
  image_z :: "img option"
  prev_value :: "'v option"
  caching :: bool
  cache :: "'v option \<rightharpoonup> img"
  i_pass_self :: bool
  v_pass_self :: bool
  name :: "string option"

record ('v, 'w) zone = "'v zone_data" +
  value_cb :: "'v zone_data option \<Rightarrow> 'w \<Rightarrow> 'v option \<times> 'w"
  image_cb :: "'v option \<Rightarrow> 'v zone_data option \<Rightarrow> 'w \<Rightarrow> img \<times> 'w"

subsection \<open>Zone\<close>

text \<open>
  \<^verbatim>\<open>Zone.__init__\<close>. The attributes \<^verbatim>\<open>value\<close>, \<^verbatim>\<open>image\<close> and \<^verbatim>\<open>prev_value\<close> are the
  class attributes, all \<^verbatim>\<open>None\<close>. The cache exists only when caching is on; it is
  read and written only under \<^verbatim>\<open>if self.caching\<close>, and is the empty map otherwise.
\<close>

definition Zone ::
  "('v zone_data option \<Rightarrow> 'w \<Rightarrow> 'v option \<times> 'w) \<Rightarrow>
   ('v option \<Rightarrow> 'v zone_data option \<Rightarrow> 'w \<Rightarrow> img \<times> 'w) \<Rightarrow>
   bool \<Rightarrow> bool \<Rightarrow> bool \<Rightarrow> string option \<Rightarrow> ('v, 'w) zone" where
  "Zone vcb icb c ips vps nm =
     \<lparr> value_z = None, image_z = None, prev_value = None, caching = c,
       cache = Map.empty, i_pass_self = ips, v_pass_self = vps, name = nm,
       value_cb = vcb, image_cb = icb \<rparr>"

text \<open>The zone as a callback sees it when it is passed \<^verbatim>\<open>self\<close>.\<close>

definition self_of :: "('v, 'w) zone \<Rightarrow> 'v zone_data" where
  "self_of z = zone_data.truncate z"

text \<open>Lines 40-43: invoking the value callback.\<close>

definition call_value_cb :: "('v, 'w) zone \<Rightarrow> 'w \<Rightarrow> 'v option \<times> 'w" where
  "call_value_cb z w =
     (if v_pass_self z then value_cb z (Some (self_of z)) w else value_cb z None w)"

text \<open>Lines 58-61: invoking the image callback on the stored value.\<close>

definition call_image_cb :: "('v, 'w) zone \<Rightarrow> 'w \<Rightarrow> img \<times> 'w" where
  "call_image_cb z w =
     (if i_pass_self z then image_cb z (value_z z) (Some (self_of z)) w
      else image_cb z (value_z z) None w)"

text \<open>
  \<^verbatim>\<open>Zone.needs_refresh\<close>. The \<^verbatim>\<open>logger.debug\<close> line prints nothing (the logger's level
  is "info").
\<close>

definition needs_refresh ::
  "('v, 'w) zone \<Rightarrow> ('v, 'w) env \<Rightarrow> bool \<times> ('v, 'w) zone \<times> ('v, 'w) env" where
  "needs_refresh z e =
     (case call_value_cb z (world e) of (new_value, w') \<Rightarrow>
        if new_value \<noteq> value_z z
        then (True, z\<lparr>prev_value := value_z z, value_z := new_value\<rparr>, e\<lparr>world := w'\<rparr>)
        else (False, z, e\<lparr>world := w'\<rparr>))"

text \<open>\<^verbatim>\<open>Zone.update_image\<close>.\<close>

definition update_image ::
  "('v, 'w) zone \<Rightarrow> ('v, 'w) env \<Rightarrow> img \<times> ('v, 'w) zone \<times> ('v, 'w) env" where
  "update_image z e =
     (case (if caching z then cache z (value_z z) else None) of
        Some cached \<Rightarrow> (cached, z, e)
      | None \<Rightarrow>
         (case call_image_cb z (world e) of (im, w') \<Rightarrow>
            (im,
             if caching z then z\<lparr>cache := (cache z)(value_z z \<mapsto> im)\<rparr> else z,
             e\<lparr>world := w', trace := trace e @ [ImageCb (value_z z)]\<rparr>)))"

text \<open>\<^verbatim>\<open>Zone.get_image\<close>.\<close>

definition get_image :: "('v, 'w) zone \<Rightarrow> img option" where
  "get_image z = image_z z"

text \<open>\<^verbatim>\<open>Zone.refresh\<close>.\<close>

definition refresh ::
  "('v, 'w) zone \<Rightarrow> ('v, 'w) env \<Rightarrow> bool \<times> ('v, 'w) zone \<times> ('v, 'w) env" where
  "refresh z e =
     (case needs_refresh z e of (changed, z1, e1) \<Rightarrow>
        if changed
        then (case update_image z1 e1 of (im, z2, e2) \<Rightarrow>
                (True, z2\<lparr>image_z := Some im\<rparr>, e2))
        else (False, z1, e1))"

subsection \<open>Spacers, markup and the manager's state\<close>

text \<open>
  A markup cell is a string (the key of a zone, a filler, or an unknown key), a
  \<^verbatim>\<open>ZoneSpacer\<close> or a \<^verbatim>\<open>VerticalZoneSpacer\<close>; a spacer holds its \<^verbatim>\<open>value\<close>. The
  keys of the zone collection are strings.
\<close>

datatype cell = Str string | ZoneSpacer int | VerticalZoneSpacer int

datatype error = AttributeError | KeyError | TypeError

text \<open>
  The dictionary \<^verbatim>\<open>zones\<close> is an association list with distinct keys, in the order
  in which \<^verbatim>\<open>items()\<close> lists it; every key holds a zone object of its own. The
  output device \<^verbatim>\<open>o\<close> is its \<^verbatim>\<open>width\<close> and \<^verbatim>\<open>height\<close>. The canvas is the \<^verbatim>\<open>Paste\<close>
  and \<^verbatim>\<open>Display\<close> events of the trace.
\<close>

record ('v, 'w) zone_manager =
  zones :: "(string \<times> ('v, 'w) zone) list"
  markup :: "cell list list"
  zones_that_need_refresh :: "string \<rightharpoonup> bool"
  o_width :: int
  o_height :: int

type_synonym ('v, 'w) st = "('v, 'w) zone_manager \<times> ('v, 'w) env"

subsection \<open>ZoneManager\<close>

text \<open>\<^verbatim>\<open>refresh_on_start\<close>: the loop over \<^verbatim>\<open>self.zones.items()\<close>.\<close>

fun refresh_on_start_items ::
  "(string \<times> ('v, 'w) zone) list \<Rightarrow> ('v, 'w) st \<Rightarrow> ('v, 'w) st" where
  "refresh_on_start_items [] s = s"
| "refresh_on_start_items ((nm, zone) # items) (zm, e) =
     (case refresh zone e of (_, zone', e') \<Rightarrow>
        refresh_on_start_items items
          (zm\<lparr>zones := AList.update nm zone' (zones zm),
              zones_that_need_refresh := (zones_that_need_refresh zm)(nm \<mapsto> True)\<rparr>, e'))"

definition refresh_on_start :: "('v, 'w) st \<Rightarrow> ('v, 'w) st" where
  "refresh_on_start s = refresh_on_start_items (zones (fst s)) s"

text \<open>\<^verbatim>\<open>ZoneManager.__init__\<close>, from the size of \<^verbatim>\<open>o\<close>, the markup and the zones.\<close>

definition ZoneManager ::
  "int \<Rightarrow> int \<Rightarrow> cell list list \<Rightarrow> (string \<times> ('v, 'w) zone) list \<Rightarrow> ('v, 'w) env \<Rightarrow>
   ('v, 'w) st" where
  "ZoneManager w h mk zs e =
     refresh_on_start
       (\<lparr>zones = zs, markup = mk, zones_that_need_refresh = Map.empty,
         o_width = w, o_height = h\<rparr>, e)"

text \<open>\<^verbatim>\<open>element in self.zones\<close>, with the zone found.\<close>

fun zone_of :: "('v, 'w) zone_manager \<Rightarrow> cell \<Rightarrow> ('v, 'w) zone option" where
  "zone_of zm (Str k) = map_of (zones zm) k"
| "zone_of zm (ZoneSpacer v) = None"
| "zone_of zm (VerticalZoneSpacer v) = None"

text \<open>
  \<^verbatim>\<open>get_element_height\<close> and \<^verbatim>\<open>get_element_width\<close>. Reading \<^verbatim>\<open>.height\<close> of the image
  \<^verbatim>\<open>None\<close> raises AttributeError; an element that is neither of the two cases falls
  off the end of the function, which returns \<^verbatim>\<open>None\<close>.
\<close>

fun get_element_height :: "('v, 'w) zone_manager \<Rightarrow> cell \<Rightarrow> error + int option" where
  "get_element_height zm (Str k) =
     (case map_of (zones zm) k of
        Some z \<Rightarrow> (case get_image z of None \<Rightarrow> Inl AttributeError
                                     | Some im \<Rightarrow> Inr (Some (height im)))
      | None \<Rightarrow> Inr None)"
| "get_element_height zm (VerticalZoneSpacer v) = Inr (Some v)"
| "get_element_height zm (ZoneSpacer v) = Inr None"

fun get_element_width :: "('v, 'w) zone_manager \<Rightarrow> cell \<Rightarrow> error + int option" where
  "get_element_width zm (Str k) =
     (case map_of (zones zm) k of
        Some z \<Rightarrow> (case get_image z of None \<Rightarrow> Inl AttributeError
                                     | Some im \<Rightarrow> Inr (Some (width im)))
      | None \<Rightarrow> Inr None)"
| "get_element_width zm (ZoneSpacer v) = Inr (Some v)"
| "get_element_width zm (VerticalZoneSpacer v) = Inr None"

text \<open>A list comprehension \<^verbatim>\<open>[f(item) for item in row]\<close> whose body may raise.\<close>

fun comprehension :: "('a \<Rightarrow> error + 'b) \<Rightarrow> 'a list \<Rightarrow> error + 'b list" where
  "comprehension f [] = Inr []"
| "comprehension f (item # row) =
     (case f item of
        Inl err \<Rightarrow> Inl err
      | Inr y \<Rightarrow> (case comprehension f row of Inl err \<Rightarrow> Inl err | Inr ys \<Rightarrow> Inr (y # ys)))"

text \<open>\<^verbatim>\<open>filter(None, xs)\<close>: the elements that are true, neither \<^verbatim>\<open>None\<close> nor 0.\<close>

fun filter_None :: "int option list \<Rightarrow> int list" where
  "filter_None [] = []"
| "filter_None (None # xs) = filter_None xs"
| "filter_None (Some h # xs) = (if h = 0 then filter_None xs else h # filter_None xs)"

text \<open>
  \<^verbatim>\<open>max(xs)\<close> in Python 2, where \<^verbatim>\<open>None\<close> is below every integer. It is called on
  lists with an integer in them only; on the empty list (where Python raises) the
  value here is \<open>None\<close>.
\<close>

fun max_py2 :: "int option list \<Rightarrow> int option" where
  "max_py2 [] = None"
| "max_py2 (x # xs) =
     (case x of
        None \<Rightarrow> max_py2 xs
      | Some a \<Rightarrow> (case max_py2 xs of None \<Rightarrow> Some a | Some b \<Rightarrow> Some (max a b)))"

text \<open>Lines 130-133.\<close>

definition row_height_of :: "int option list \<Rightarrow> int option" where
  "row_height_of item_heights =
     (if filter_None item_heights \<noteq> [] then max_py2 item_heights else None)"

text \<open>
  Lines 136-147 for the rows (against \<^verbatim>\<open>self.o.height\<close>) and lines 155-166 for the
  items of a row (against \<^verbatim>\<open>self.o.width\<close>): the same statements on another list.
  The amount is positive where the division is made, so \<^verbatim>\<open>int(a/b)\<close> is \<open>a div b\<close>.
\<close>

definition redistribute :: "int \<Rightarrow> int option list \<Rightarrow> int option list" where
  "redistribute available sizes =
     (let empty_amount = count_list sizes None in
      if empty_amount = 0 then sizes
      else
        let empty_space = available - sum_list (filter_None sizes) in
        if empty_space > 0
        then map (\<lambda>el. case el of None \<Rightarrow> Some (empty_space div int empty_amount)
                                 | Some v \<Rightarrow> Some v) sizes
        else sizes)"

text \<open>Lines 118-128: one item of the first loop.\<close>

fun scan_item :: "cell \<Rightarrow> ('v, 'w) st \<Rightarrow> (error + unit) \<times> ('v, 'w) st" where
  "scan_item (Str k) (zm, e) =
     (case map_of (zones zm) k of
        Some zone \<Rightarrow>
          (case refresh zone e of (has_refreshed, zone', e') \<Rightarrow>
             let zm' = zm\<lparr>zones := AList.update k zone' (zones zm)\<rparr> in
             if has_refreshed
             then (case zones_that_need_refresh zm' k of
                     None \<Rightarrow> (Inl KeyError, (zm', e'))
                   | Some dirty \<Rightarrow>
                       if \<not> dirty
                       then (Inr (), (zm'\<lparr>zones_that_need_refresh :=
                                          (zones_that_need_refresh zm')(k \<mapsto> True)\<rparr>, e'))
                       else (Inr (), (zm', e')))
             else (Inr (), (zm', e')))
      | None \<Rightarrow>
          if \<not> list_all (\<lambda>char. char = CHR ''.'') k
          then (Inr (), (zm, e\<lparr>trace := trace e @ [Warning (''Zone '' @ k @ '' unknown!'')]\<rparr>))
          else (Inr (), (zm, e)))"
| "scan_item (ZoneSpacer v) s = (Inr (), s)"
| "scan_item (VerticalZoneSpacer v) s = (Inr (), s)"

fun scan_items :: "cell list \<Rightarrow> ('v, 'w) st \<Rightarrow> (error + unit) \<times> ('v, 'w) st" where
  "scan_items [] s = (Inr (), s)"
| "scan_items (item # row) s =
     (case scan_item item s of
        (Inl err, s') \<Rightarrow> (Inl err, s')
      | (Inr _, s') \<Rightarrow> scan_items row s')"

text \<open>Lines 115-134: the first loop over the rows, appending to \<^verbatim>\<open>row_heights\<close>.\<close>

fun scan_rows ::
  "cell list list \<Rightarrow> int option list \<Rightarrow> ('v, 'w) st \<Rightarrow>
   (error + int option list) \<times> ('v, 'w) st" where
  "scan_rows [] row_heights s = (Inr row_heights, s)"
| "scan_rows (row # rows) row_heights s =
     (case scan_items row s of
        (Inl err, s') \<Rightarrow> (Inl err, s')
      | (Inr _, s') \<Rightarrow>
          (case comprehension (get_element_height (fst s')) row of
             Inl err \<Rightarrow> (Inl err, s')
           | Inr item_heights \<Rightarrow>
               scan_rows rows (row_heights @ [row_height_of item_heights]) s'))"

text \<open>\<^verbatim>\<open>x += width\<close> and \<^verbatim>\<open>y += row_height\<close>: adding \<^verbatim>\<open>None\<close> to an integer raises.\<close>

fun plus_eq :: "int \<Rightarrow> int option \<Rightarrow> error + int" where
  "plus_eq x None = Inl TypeError"
| "plus_eq x (Some d) = Inr (x + d)"

text \<open>Lines 168-176: one item of a row in the second loop; the result is the new \<open>x\<close>.\<close>

definition paint_item ::
  "cell \<Rightarrow> int option \<Rightarrow> int \<Rightarrow> int \<Rightarrow> ('v, 'w) st \<Rightarrow> (error + int) \<times> ('v, 'w) st" where
  "paint_item item wd x y s =
     (case s of (zm, e) \<Rightarrow>
       (case item of
          Str k \<Rightarrow>
            (case map_of (zones zm) k of
               None \<Rightarrow> (plus_eq x wd, s)
             | Some zone \<Rightarrow>
                 (case zones_that_need_refresh zm k of
                    None \<Rightarrow> (Inl KeyError, s)
                  | Some dirty \<Rightarrow>
                      if dirty
                      then (plus_eq x wd,
                            (zm\<lparr>zones_that_need_refresh :=
                                  (zones_that_need_refresh zm)(k \<mapsto> False)\<rparr>,
                             e\<lparr>trace := trace e @ [Paste k (get_image zone) x y]\<rparr>))
                      else (plus_eq x wd, s)))
        | _ \<Rightarrow> (plus_eq x wd, s)))"

fun paint_items ::
  "(cell \<times> int option) list \<Rightarrow> int \<Rightarrow> int \<Rightarrow> ('v, 'w) st \<Rightarrow> (error + int) \<times> ('v, 'w) st" where
  "paint_items [] x y s = (Inr x, s)"
| "paint_items ((item, wd) # row) x y s =
     (case paint_item item wd x y s of
        (Inl err, s') \<Rightarrow> (Inl err, s')
      | (Inr x', s') \<Rightarrow> paint_items row x' y s')"

text \<open>Lines 151-177: one row of the second loop; the result is the new \<open>y\<close>.\<close>

definition paint_row ::
  "cell list \<Rightarrow> int option \<Rightarrow> int \<Rightarrow> ('v, 'w) st \<Rightarrow> (error + int) \<times> ('v, 'w) st" where
  "paint_row row row_height y s =
     (case comprehension (get_element_width (fst s)) row of
        Inl err \<Rightarrow> (Inl err, s)
      | Inr item_widths \<Rightarrow>
          (case paint_items (zip row (redistribute (o_width (fst s)) item_widths)) 0 y s of
             (Inl err, s') \<Rightarrow> (Inl err, s')
           | (Inr x, s') \<Rightarrow> (plus_eq y row_height, s')))"

fun paint_rows ::
  "(cell list \<times> int option) list \<Rightarrow> int \<Rightarrow> ('v, 'w) st \<Rightarrow> (error + int) \<times> ('v, 'w) st" where
  "paint_rows [] y s = (Inr y, s)"
| "paint_rows ((row, row_height) # rows) y s =
     (case paint_row row row_height y s of
        (Inl err, s') \<Rightarrow> (Inl err, s')
      | (Inr y', s') \<Rightarrow> paint_rows rows y' s')"

text \<open>Lines 115-147: the row heights, as the second loop reads them.\<close>

definition row_height_pass ::
  "('v, 'w) st \<Rightarrow> (error + int option list) \<times> ('v, 'w) st" where
  "row_height_pass s =
     (case scan_rows (markup (fst s)) [] s of
        (Inl err, s') \<Rightarrow> (Inl err, s')
      | (Inr row_heights, s') \<Rightarrow> (Inr (redistribute (o_height (fst s')) row_heights), s'))"

text \<open>
  \<^verbatim>\<open>ZoneManager.show\<close>. An exception leaves the manager as the statements before
  it have made it.
\<close>

definition show_zm :: "('v, 'w) st \<Rightarrow> (error + unit) \<times> ('v, 'w) st" where
  "show_zm s =
     (case row_height_pass s of
        (Inl err, s') \<Rightarrow> (Inl err, s')
      | (Inr row_heights, s') \<Rightarrow>
          (case paint_rows (zip (markup (fst s')) row_heights) 0 s' of
             (Inl err, s'') \<Rightarrow> (Inl err, s'')
           | (Inr y, (zm, e)) \<Rightarrow> (Inr (), (zm, e\<lparr>trace := trace e @ [Display]\<rparr>))))"

subsection \<open>Sequences of calls\<close>

text \<open>
  The zone after a sequence of \<^verbatim>\<open>refresh()\<close> calls, one for each environment of the
  list: between two calls the world outside may have changed in any way.
\<close>

fun refreshes :: "('v, 'w) env list \<Rightarrow> ('v, 'w) zone \<Rightarrow> ('v, 'w) zone" where
  "refreshes [] z = z"
| "refreshes (e # es) z = refreshes es (fst (snd (refresh z e)))"

subsection \<open>Example zones\<close>

text \<open>
  The world is a counter of ticks. \<open>tick_cb\<close> reads the parity of the counter and
  advances it, \<open>none_cb\<close> returns \<^verbatim>\<open>None\<close>, and \<open>draw_cb\<close> draws a 10 by 8 image for
  every value.
\<close>

definition tick_cb :: "nat zone_data option \<Rightarrow> nat \<Rightarrow> nat option \<times> nat" where
  "tick_cb self w = (Some (w mod 2), Suc w)"

definition none_cb :: "nat zone_data option \<Rightarrow> nat \<Rightarrow> nat option \<times> nat" where
  "none_cb self w = (None, w)"

definition draw_cb :: "nat option \<Rightarrow> nat zone_data option \<Rightarrow> nat \<Rightarrow> img \<times> nat" where
  "draw_cb v self w =
     (\<lparr>ident = (case v of None \<Rightarrow> 0 | Some n \<Rightarrow> Suc n), width = 10, height = 8\<rparr>, w)"

definition env_at :: "nat \<Rightarrow> (nat, nat) env" where
  "env_at t = \<lparr>world = t, trace = []\<rparr>"

definition zone_ex :: "(nat, nat) zone" where
  "zone_ex = Zone tick_cb draw_cb True False False None"

text \<open>
  \<open>stamp_cb\<close> returns a new image at every invocation (its identity is the world it
  is invoked in) and leaves its mark on the world.
\<close>

definition stamp_cb :: "nat option \<Rightarrow> nat zone_data option \<Rightarrow> nat \<Rightarrow> img \<times> nat" where
  "stamp_cb v self w = (\<lparr>ident = w, width = 10, height = 8\<rparr>, w + 100)"

definition zone_stamp :: "(nat, nat) zone" where
  "zone_stamp = Zone tick_cb stamp_cb False False False None"

subsection \<open>Sequences of shows, and what a show has done\<close>

text \<open>
  The manager after a sequence of \<^verbatim>\<open>show()\<close> calls, one for each world of the list
  (the world as it is when the call is made). A call that raises is followed by the
  next call all the same, on the manager the exception has left.
\<close>

fun shows_zm :: "'w list \<Rightarrow> ('v, 'w) st \<Rightarrow> ('v, 'w) st" where
  "shows_zm [] s = s"
| "shows_zm (w # ws) s = shows_zm ws (snd (show_zm (fst s, (snd s)\<lparr>world := w\<rparr>)))"

text \<open>The keys of the zones pasted by a list of events, and the events added to a trace.\<close>

fun pasted_keys :: "'v event list \<Rightarrow> string list" where
  "pasted_keys [] = []"
| "pasted_keys (Paste k im x y # evs) = k # pasted_keys evs"
| "pasted_keys (ImageCb v # evs) = pasted_keys evs"
| "pasted_keys (Warning m # evs) = pasted_keys evs"
| "pasted_keys (Display # evs) = pasted_keys evs"

definition events_since :: "('v, 'w) env \<Rightarrow> ('v, 'w) env \<Rightarrow> 'v event list" where
  "events_since e e' = drop (length (trace e)) (trace e')"

text \<open>
  ``A refresh of every zone in the zone collection'', in the order of the collection:
  the zones that result, and the environment the callbacks leave.
\<close>

fun refresh_all ::
  "(string \<times> ('v, 'w) zone) list \<Rightarrow> ('v, 'w) env \<Rightarrow> (string \<times> ('v, 'w) zone) list \<times> ('v, 'w) env" where
  "refresh_all [] e = ([], e)"
| "refresh_all ((k, z) # zs) e =
     (case refresh z e of (_, z', e') \<Rightarrow>
        (case refresh_all zs e' of (zs', e'') \<Rightarrow> ((k, z') # zs', e'')))"

text \<open>
  Two relations between the state before and after a part of \<^verbatim>\<open>show()\<close>, used in the
  proofs. Through the first loop the setup stays, nothing is pasted, and a flag
  either stays as it is (and where it stays false, the zone is unchanged) or goes from
  false to true. Through the second loop the zones stay, and a flag is false for
  the keys pasted and as before for the others; a key is pasted at most once, and
  only if its flag was true; what is pasted is the image of the zone under that key.
\<close>

definition same_setup :: "('v, 'w) zone_manager \<Rightarrow> ('v, 'w) zone_manager \<Rightarrow> bool" where
  "same_setup zm zm' \<longleftrightarrow>
     markup zm' = markup zm \<and> o_width zm' = o_width zm \<and> o_height zm' = o_height zm \<and>
     map fst (zones zm') = map fst (zones zm)"

definition scan_frame :: "('v, 'w) st \<Rightarrow> ('v, 'w) st \<Rightarrow> bool" where
  "scan_frame s s' \<longleftrightarrow>
     same_setup (fst s) (fst s') \<and>
     (\<exists>evs. trace (snd s') = trace (snd s) @ evs \<and> pasted_keys evs = []) \<and>
     (\<forall>k. zones_that_need_refresh (fst s') k = zones_that_need_refresh (fst s) k \<and>
            (zones_that_need_refresh (fst s) k = Some False \<longrightarrow>
               map_of (zones (fst s')) k = map_of (zones (fst s)) k) \<or>
          zones_that_need_refresh (fst s) k = Some False \<and>
          zones_that_need_refresh (fst s') k = Some True)"

definition paint_frame :: "('v, 'w) st \<Rightarrow> ('v, 'w) st \<Rightarrow> bool" where
  "paint_frame s s' \<longleftrightarrow>
     same_setup (fst s) (fst s') \<and> zones (fst s') = zones (fst s) \<and>
     (\<exists>evs. trace (snd s') = trace (snd s) @ evs \<and>
        zones_that_need_refresh (fst s') =
          (\<lambda>k. if k \<in> set (pasted_keys evs) then Some False
               else zones_that_need_refresh (fst s) k) \<and>
        distinct (pasted_keys evs) \<and>
        (\<forall>k \<in> set (pasted_keys evs). zones_that_need_refresh (fst s) k = Some True) \<and>
        (\<forall>ev \<in> set evs. \<exists>k z x y. ev = Paste k (get_image z) x y \<and>
                                   map_of (zones (fst s)) k = Some z))"

subsection \<open>Example managers\<close>

text \<open>
  Displays of 128 by 64 (one of 128 by 8), with no zone or with the zone \<open>zone_ex\<close>
  under the key \<^verbatim>\<open>clock\<close>.
\<close>

definition zm_fixed_rows :: "(nat, nat) st" where
  "zm_fixed_rows = ZoneManager 128 64 [[VerticalZoneSpacer 64], [Str ''...'']] [] (env_at 0)"

definition zm_unknown_key :: "(nat, nat) st" where
  "zm_unknown_key = ZoneManager 128 64 [[Str ''ZZZ'', ZoneSpacer 128]] [] (env_at 0)"

definition zm_stuck :: "(nat, nat) st" where
  "zm_stuck = ZoneManager 128 8 [[Str ''.''], [Str ''clock'']] [(''clock'', zone_ex)] (env_at 0)"

definition zm_rows :: "(nat, nat) st" where
  "zm_rows = ZoneManager 128 64 [[Str ''clock''], [Str ''.''], [Str ''..'']] [(''clock'', zone_ex)] (env_at 0)"

definition zm_zero_spacer :: "(nat, nat) st" where
  "zm_zero_spacer = ZoneManager 128 64 [[ZoneSpacer 0, Str ''clock'']] [(''clock'', zone_ex)] (env_at 0)"

definition zm_filler :: "(nat, nat) st" where
  "zm_filler = ZoneManager 128 64 [[Str ''.'', Str ''clock'']] [(''clock'', zone_ex)] (env_at 0)"

definition zm_twice :: "(nat, nat) st" where
  "zm_twice = ZoneManager 128 64 [[Str ''clock'', Str ''clock'']] [(''clock'', zone_ex)] (env_at 0)"

definition zm_clock :: "(nat, nat) st" where
  "zm_clock = ZoneManager 128 64 [[Str ''clock'', Str ''..'']] [(''clock'', zone_ex)] (env_at 0)"

section \<open>Properties of a zone\<close>

lemmas ex_defs = zone_ex_def zone_stamp_def Zone_def tick_cb_def none_cb_def draw_cb_def
  stamp_cb_def env_at_def self_of_def
  refresh_def needs_refresh_def update_image_def call_value_cb_def call_image_cb_def

lemma refresh_caching [simp]: "caching (fst (snd (refresh z e))) = caching z"
  by (auto simp add: refresh_def needs_refresh_def update_image_def split: prod.splits option.splits)

lemma refresh_cache_keeps:
  "cache z v = Some im \<Longrightarrow> caching z \<Longrightarrow> cache (fst (snd (refresh z e))) v = Some im"
  by (auto simp add: refresh_def needs_refresh_def update_image_def split: prod.splits option.splits)

lemma refreshes_caching [simp]: "caching (refreshes es z) = caching z"
  by (induction es arbitrary: z) simp_all

lemma refreshes_cache_keeps:
  "cache z v = Some im \<Longrightarrow> caching z \<Longrightarrow> cache (refreshes es z) v = Some im"
  by (induction es arbitrary: z) (simp_all add: refresh_cache_keeps)

lemma refresh_stores:
  "caching z0 \<Longrightarrow> refresh z0 e0 = (True, z1, e1) \<Longrightarrow>
   \<exists>im. image_z z1 = Some im \<and> cache z1 (value_z z1) = Some im \<and> caching z1"
  by (auto simp add: refresh_def needs_refresh_def update_image_def split: prod.splits option.splits if_splits)

lemma update_image_hit:
  "caching z \<Longrightarrow> cache z (value_z z) = Some im \<Longrightarrow> update_image z e = (im, z, e)"
  by (simp add: update_image_def)

lemma needs_refresh_keeps:
  "needs_refresh z e = (b, z', e') \<Longrightarrow> caching z' = caching z \<and> cache z' = cache z \<and> trace e' = trace e"
  by (auto simp add: needs_refresh_def split: prod.splits if_splits)

lemma refresh_hit:
  "caching z \<Longrightarrow> needs_refresh z e = (True, z', e') \<Longrightarrow> cache z (value_z z') = Some im \<Longrightarrow>
   refresh z e = (True, z'\<lparr>image_z := Some im\<rparr>, e')"
  using needs_refresh_keeps[of z e True z' e']
  by (simp add: refresh_def update_image_def)

lemma update_image_miss:
  "\<not> caching z \<Longrightarrow> call_image_cb z (world e) = (im, w') \<Longrightarrow>
   update_image z e = (im, z, e\<lparr>world := w', trace := trace e @ [ImageCb (value_z z)]\<rparr>)"
  by (simp add: update_image_def)

lemma needs_refresh_True:
  "needs_refresh z e = (True, z', e') \<Longrightarrow>
   z' = z\<lparr>prev_value := value_z z, value_z := fst (call_value_cb z (world e))\<rparr> \<and>
   e' = e\<lparr>world := snd (call_value_cb z (world e))\<rparr> \<and>
   fst (call_value_cb z (world e)) \<noteq> value_z z"
  by (auto simp add: needs_refresh_def split: prod.splits if_splits)

lemma needs_refresh_False:
  "needs_refresh z e = (False, z', e') \<Longrightarrow>
   z' = z \<and> e' = e\<lparr>world := snd (call_value_cb z (world e))\<rparr> \<and>
   fst (call_value_cb z (world e)) = value_z z"
  by (auto simp add: needs_refresh_def split: prod.splits if_splits)

text \<open>
  Claim C1, as amended. \<^verbatim>\<open>refresh()\<close> returns true if and only if the result of
  invoking the value callback differs from the stored value. On the first call after
  construction the stored value is \<^verbatim>\<open>None\<close>, so that \<^verbatim>\<open>refresh()\<close> returns true if
  and only if the callback produces a value other than \<^verbatim>\<open>None\<close>.
\<close>

theorem refresh_iff_value_differs:
  "fst (refresh z e) = (fst (call_value_cb z (world e)) \<noteq> value_z z) \<and>
   fst (refresh (Zone vcb icb c ips vps nm) e) =
     (fst (call_value_cb (Zone vcb icb c ips vps nm) (world e)) \<noteq> None)"
  by (simp add: refresh_def needs_refresh_def Zone_def split: prod.splits)

theorem refresh_iff_value_differs_witness:
  "fst (refresh zone_ex (env_at 0)) \<and> fst (call_value_cb zone_ex (world (env_at 0))) = Some 0"
  using refresh_iff_value_differs [of zone_ex "env_at 0" tick_cb draw_cb True False False None]
  by (simp add: zone_ex_def call_value_cb_def Zone_def tick_cb_def env_at_def)

text \<open>
  Claim C1 as stated fails: a value callback that produces \<^verbatim>\<open>None\<close> makes the first
  \<^verbatim>\<open>refresh()\<close> after construction return false.
\<close>

theorem first_refresh_false:
  "\<not> fst (refresh (Zone none_cb draw_cb True False False None) (env_at 0))"
  by (simp add: ex_defs)

text \<open>
  Claim C2. Let a zone have caching enabled and let a refresh have stored an image
  for the value it found. After any further refreshes, \<^verbatim>\<open>update_image()\<close> on that
  value returns the stored image and leaves the zone, the world and the trace as they
  are (the image callback is not invoked); and a \<^verbatim>\<open>refresh()\<close> that finds that value
  again stores the same image, the world and the trace being those left by the value
  callback alone.
\<close>

theorem cached_image_reused:
  assumes "caching z0" and "refresh z0 e0 = (True, z1, e1)"
  shows "\<exists>im. image_z z1 = Some im \<and>
     (\<forall>es e. value_z (refreshes es z1) = value_z z1 \<longrightarrow>
        update_image (refreshes es z1) e = (im, refreshes es z1, e)) \<and>
     (\<forall>es e z' e'. needs_refresh (refreshes es z1) e = (True, z', e') \<and> value_z z' = value_z z1 \<longrightarrow>
        refresh (refreshes es z1) e = (True, z'\<lparr>image_z := Some im\<rparr>, e'))"
proof -
  from refresh_stores[OF assms] obtain im where
    im: "image_z z1 = Some im" "cache z1 (value_z z1) = Some im" "caching z1" by blast
  have keep: "cache (refreshes es z1) (value_z z1) = Some im" for es
    using im by (simp add: refreshes_cache_keeps)
  have a: "update_image (refreshes es z1) e = (im, refreshes es z1, e)"
    if "value_z (refreshes es z1) = value_z z1" for es e
    using update_image_hit[of "refreshes es z1" im e] keep[of es] that im(3) by simp
  have b: "refresh (refreshes es z1) e = (True, z'\<lparr>image_z := Some im\<rparr>, e')"
    if "needs_refresh (refreshes es z1) e = (True, z', e')" "value_z z' = value_z z1" for es e z' e'
    using refresh_hit[of "refreshes es z1" e z' e' im] keep[of es] that im(3) by simp
  show ?thesis using im(1) a b by blast
qed

theorem cached_image_reused_witness:
  "caching zone_ex \<and> fst (refresh zone_ex (env_at 0)) \<and>
   image_z (fst (snd (refresh zone_ex (env_at 0)))) = Some \<lparr>ident = 1, width = 10, height = 8\<rparr> \<and>
   value_z (refreshes [env_at 1, env_at 2] (fst (snd (refresh zone_ex (env_at 0))))) = Some 0 \<and>
   fst (update_image (refreshes [env_at 1, env_at 2] (fst (snd (refresh zone_ex (env_at 0))))) (env_at 3)) =
      \<lparr>ident = 1, width = 10, height = 8\<rparr> \<and>
   snd (snd (update_image (refreshes [env_at 1, env_at 2] (fst (snd (refresh zone_ex (env_at 0))))) (env_at 3))) = env_at 3 \<and>
   fst (needs_refresh (refreshes [env_at 1] (fst (snd (refresh zone_ex (env_at 0))))) (env_at 2)) \<and>
   image_z (fst (snd (refresh (refreshes [env_at 1] (fst (snd (refresh zone_ex (env_at 0))))) (env_at 2)))) =
      Some \<lparr>ident = 1, width = 10, height = 8\<rparr> \<and>
   trace (snd (snd (refresh (refreshes [env_at 1] (fst (snd (refresh zone_ex (env_at 0))))) (env_at 2)))) = []"
proof -
  let ?z1 = "fst (snd (refresh zone_ex (env_at 0)))"
  let ?e1 = "snd (snd (refresh zone_ex (env_at 0)))"
  let ?n = "needs_refresh (refreshes [env_at 1] ?z1) (env_at 2)"
  let ?im = "\<lparr>ident = 1, width = 10, height = 8\<rparr>"
  have c: "caching zone_ex" by (simp add: zone_ex_def Zone_def)
  have f: "fst (refresh zone_ex (env_at 0))" by (simp add: ex_defs)
  then have r: "refresh zone_ex (env_at 0) = (True, ?z1, ?e1)" by (metis prod.collapse)
  have i: "image_z ?z1 = Some ?im" by (simp add: ex_defs)
  have v: "value_z ?z1 = Some 0" by (simp add: ex_defs)
  have v2: "value_z (refreshes [env_at 1, env_at 2] ?z1) = Some 0" by (simp add: ex_defs)
  have n: "fst ?n" by (simp add: ex_defs)
  then have n': "?n = (True, fst (snd ?n), snd (snd ?n))" by (metis prod.collapse)
  have nv: "value_z (fst (snd ?n)) = Some 0" by (simp add: ex_defs)
  have nt: "trace (snd (snd ?n)) = []" by (simp add: ex_defs)
  from cached_image_reused [OF c r] i
  have a: "value_z (refreshes es ?z1) = value_z ?z1 \<Longrightarrow>
        update_image (refreshes es ?z1) e = (?im, refreshes es ?z1, e)"
   and b: "needs_refresh (refreshes es ?z1) e = (True, z', e') \<Longrightarrow> value_z z' = value_z ?z1 \<Longrightarrow>
        refresh (refreshes es ?z1) e = (True, z'\<lparr>image_z := Some ?im\<rparr>, e')" for es e z' e'
    by auto
  have u: "update_image (refreshes [env_at 1, env_at 2] ?z1) (env_at 3) =
      (?im, refreshes [env_at 1, env_at 2] ?z1, env_at 3)"
    by (rule a) (simp only: v v2)
  have u1: "fst (update_image (refreshes [env_at 1, env_at 2] ?z1) (env_at 3)) = ?im"
    and u2: "snd (snd (update_image (refreshes [env_at 1, env_at 2] ?z1) (env_at 3))) = env_at 3"
    by (simp_all only: u fst_conv snd_conv)
  have h: "refresh (refreshes [env_at 1] ?z1) (env_at 2) =
      (True, fst (snd ?n)\<lparr>image_z := Some ?im\<rparr>, snd (snd ?n))"
    by (rule b [OF n']) (simp only: v nv)
  have h1: "image_z (fst (snd (refresh (refreshes [env_at 1] ?z1) (env_at 2)))) = Some ?im"
    by (simp only: h fst_conv snd_conv) simp
  have h2: "trace (snd (snd (refresh (refreshes [env_at 1] ?z1) (env_at 2)))) = []"
    by (simp only: h fst_conv snd_conv nt)
  show ?thesis using c f i v2 u1 u2 n h1 h2 by blast
qed

lemma refresh_image_cb [simp]: "image_cb (fst (snd (refresh z e))) = image_cb z"
  by (auto simp add: refresh_def needs_refresh_def update_image_def split: prod.splits option.splits)

lemma refresh_i_pass_self [simp]: "i_pass_self (fst (snd (refresh z e))) = i_pass_self z"
  by (auto simp add: refresh_def needs_refresh_def update_image_def split: prod.splits option.splits)

lemma refreshes_image_cb [simp]: "image_cb (refreshes es z) = image_cb z"
  by (induction es arbitrary: z) simp_all

lemma refreshes_i_pass_self [simp]: "i_pass_self (refreshes es z) = i_pass_self z"
  by (induction es arbitrary: z) simp_all

text \<open>
  Claim C9. For a zone with caching disabled, in any state a sequence of refreshes
  has led to (whatever values were seen before), a \<^verbatim>\<open>refresh()\<close> whose value callback
  returns a value different from the stored one invokes the image callback of the zone
  exactly once, on the new value, in the world the value callback has left: the
  stored image is the image that one invocation returns, the world is the world it
  leaves, and the trace grows by that one invocation.
\<close>

theorem uncached_image_regenerated:
  assumes "\<not> caching z0" and "needs_refresh (refreshes es z0) e = (True, z', e')"
  shows "refresh (refreshes es z0) e =
     (True,
      z'\<lparr>image_z := Some (fst (image_cb z0 (value_z z')
                 (if i_pass_self z0 then Some (self_of z') else None) (world e')))\<rparr>,
      e'\<lparr>world := snd (image_cb z0 (value_z z')
                 (if i_pass_self z0 then Some (self_of z') else None) (world e')),
         trace := trace e @ [ImageCb (value_z z')]\<rparr>)"
proof -
  let ?r = "image_cb z0 (value_z z') (if i_pass_self z0 then Some (self_of z') else None) (world e')"
  have nc: "\<not> caching z'" and tr: "trace e' = trace e"
    using needs_refresh_keeps[OF assms(2)] assms(1) by simp_all
  have same: "image_cb z' = image_cb z0" "i_pass_self z' = i_pass_self z0"
    using needs_refresh_True[OF assms(2)] by simp_all
  have cb: "call_image_cb z' (world e') = (fst ?r, snd ?r)"
    using same by (simp add: call_image_cb_def)
  show ?thesis
    using update_image_miss[OF nc cb] assms(2) tr by (simp add: refresh_def)
qed

theorem uncached_image_regenerated_witness:
  "\<not> caching zone_stamp \<and>
   value_z (refreshes [env_at 0, env_at 1] zone_stamp) = Some 1 \<and>
   prev_value (refreshes [env_at 0, env_at 1] zone_stamp) = Some 0 \<and>
   fst (needs_refresh (refreshes [env_at 0, env_at 1] zone_stamp) (env_at 2)) \<and>
   world (snd (snd (needs_refresh (refreshes [env_at 0, env_at 1] zone_stamp) (env_at 2)))) = 3 \<and>
   image_z (fst (snd (refresh (refreshes [env_at 0, env_at 1] zone_stamp) (env_at 2)))) =
     Some \<lparr>ident = 3, width = 10, height = 8\<rparr> \<and>
   snd (snd (refresh (refreshes [env_at 0, env_at 1] zone_stamp) (env_at 2))) =
     \<lparr>world = 103, trace = [ImageCb (Some 0)]\<rparr>"
proof -
  let ?z = "refreshes [env_at 0, env_at 1] zone_stamp"
  let ?n = "needs_refresh ?z (env_at 2)"
  have c: "\<not> caching zone_stamp" by (simp add: zone_stamp_def Zone_def)
  have ip: "\<not> i_pass_self zone_stamp" by (simp add: zone_stamp_def Zone_def)
  have icb: "image_cb zone_stamp = stamp_cb" by (simp add: zone_stamp_def Zone_def)
  have v: "value_z ?z = Some 1" "prev_value ?z = Some 0" by (simp_all add: ex_defs)
  have n: "fst ?n" by (simp add: ex_defs)
  have nv: "value_z (fst (snd ?n)) = Some 0" by (simp add: ex_defs)
  have nw: "snd (snd ?n) = \<lparr>world = 3, trace = []\<rparr>" by (simp add: ex_defs)
  have n': "?n = (True, fst (snd ?n), snd (snd ?n))"
    using n by (metis prod.collapse)
  have r: "refresh ?z (env_at 2) =
     (True, fst (snd ?n)\<lparr>image_z := Some \<lparr>ident = 3, width = 10, height = 8\<rparr>\<rparr>,
      \<lparr>world = 103, trace = [ImageCb (Some 0)]\<rparr>)"
    using uncached_image_regenerated [OF c n'] ip icb nv nw
    by (simp add: stamp_cb_def env_at_def)
  have i: "image_z (fst (snd (refresh ?z (env_at 2)))) = Some \<lparr>ident = 3, width = 10, height = 8\<rparr>"
    and w: "snd (snd (refresh ?z (env_at 2))) = \<lparr>world = 103, trace = [ImageCb (Some 0)]\<rparr>"
    by (simp_all only: r fst_conv snd_conv) simp
  have nw': "world (snd (snd ?n)) = 3" by (simp only: nw) simp
  show ?thesis using c v n nw' i w by blast
qed

lemma call_image_cb_det:
  "\<forall>v self w. fst (image_cb z v self w) = f v \<Longrightarrow> fst (call_image_cb z w) = f (value_z z)"
  by (simp add: call_image_cb_def)

lemma update_image_det:
  assumes "\<forall>v self w. fst (image_cb z v self w) = f v"
    and "\<forall>v im. cache z v = Some im \<longrightarrow> im = f v"
    and "update_image z e = (im, z', e')"
  shows "im = f (value_z z) \<and> (\<forall>v im. cache z' v = Some im \<longrightarrow> im = f v) \<and> value_z z' = value_z z"
  using assms(2,3) call_image_cb_det[OF assms(1), of "world e"]
  by (auto simp add: update_image_def split: option.splits prod.splits if_splits)

lemma refresh_det:
  assumes "\<forall>v self w. fst (image_cb z v self w) = f v"
    and "\<forall>v im. cache z v = Some im \<longrightarrow> im = f v"
    and "image_z z = Some (f (value_z z)) \<or> z = z0"
    and "refresh z e = (b, z', e')"
  shows "(\<forall>v im. cache z' v = Some im \<longrightarrow> im = f v) \<and> (image_z z' = Some (f (value_z z')) \<or> z' = z0)"
proof (cases b)
  case False
  then have "z' = z" using assms(4) by (auto simp add: refresh_def split: prod.splits if_splits dest: needs_refresh_False)
  then show ?thesis using assms by simp
next
  case True
  then obtain z1 e1 im z2 where nr: "needs_refresh z e = (True, z1, e1)"
    and ui: "update_image z1 e1 = (im, z2, e')" and z': "z' = z2\<lparr>image_z := Some im\<rparr>"
    using assms(4) by (auto simp add: refresh_def split: prod.splits if_splits)
  from needs_refresh_True[OF nr] have z1: "image_cb z1 = image_cb z" "cache z1 = cache z" by simp_all
  from update_image_det[of z1 f e1 im z2 e'] assms(1,2) z1 ui
  have "im = f (value_z z1) \<and> (\<forall>v im. cache z2 v = Some im \<longrightarrow> im = f v) \<and> value_z z2 = value_z z1"
    by simp
  then show ?thesis using z' by simp
qed

lemma refreshes_det:
  assumes "\<forall>v self w. fst (image_cb z v self w) = f v"
    and "\<forall>v im. cache z v = Some im \<longrightarrow> im = f v"
    and "image_z z = Some (f (value_z z)) \<or> z = z0"
  shows "image_z (refreshes es z) = Some (f (value_z (refreshes es z))) \<or> refreshes es z = z0"
  using assms
proof (induction es arbitrary: z)
  case Nil
  then show ?case by simp
next
  case (Cons e es)
  obtain b z' e' where r: "refresh z e = (b, z', e')" by (cases "refresh z e") auto
  have cb: "image_cb z' = image_cb z" using refresh_image_cb[of z e] r by simp
  from refresh_det[OF Cons.prems r] cb Cons.prems(1)
  have "image_z (refreshes es z') = Some (f (value_z (refreshes es z'))) \<or> refreshes es z' = z0"
    by (intro Cons.IH) simp_all
  then show ?case using r by simp
qed





section \<open>Properties of the zone manager\<close>

subsection \<open>The two loops of show\<close>

lemma pasted_keys_append [simp]: "pasted_keys (xs @ ys) = pasted_keys xs @ pasted_keys ys"
  by (induction xs rule: pasted_keys.induct) simp_all

lemma same_setup_refl [simp]: "same_setup zm zm"
  by (simp add: same_setup_def)

lemma same_setup_trans: "same_setup a b \<Longrightarrow> same_setup b c \<Longrightarrow> same_setup a c"
  by (simp add: same_setup_def)

lemma scan_frame_refl [simp]: "scan_frame s s"
  by (simp add: scan_frame_def)

lemma scan_frame_trans:
  assumes "scan_frame a b" and "scan_frame b c"
  shows "scan_frame a c"
proof -
  from assms obtain e1 e2 where
    e1: "trace (snd b) = trace (snd a) @ e1" "pasted_keys e1 = []" and
    e2: "trace (snd c) = trace (snd b) @ e2" "pasted_keys e2 = []"
    by (auto simp add: scan_frame_def)
  have t: "trace (snd c) = trace (snd a) @ (e1 @ e2) \<and> pasted_keys (e1 @ e2) = []"
    using e1 e2 by simp
  have f: "zones_that_need_refresh (fst c) k = zones_that_need_refresh (fst a) k \<and>
            (zones_that_need_refresh (fst a) k = Some False \<longrightarrow>
               map_of (zones (fst c)) k = map_of (zones (fst a)) k) \<or>
          zones_that_need_refresh (fst a) k = Some False \<and>
          zones_that_need_refresh (fst c) k = Some True" for k
  proof -
    from assms(1) have ab: "zones_that_need_refresh (fst b) k = zones_that_need_refresh (fst a) k \<and>
            (zones_that_need_refresh (fst a) k = Some False \<longrightarrow>
               map_of (zones (fst b)) k = map_of (zones (fst a)) k) \<or>
          zones_that_need_refresh (fst a) k = Some False \<and>
          zones_that_need_refresh (fst b) k = Some True"
      unfolding scan_frame_def by blast
    from assms(2) have bc: "zones_that_need_refresh (fst c) k = zones_that_need_refresh (fst b) k \<and>
            (zones_that_need_refresh (fst b) k = Some False \<longrightarrow>
               map_of (zones (fst c)) k = map_of (zones (fst b)) k) \<or>
          zones_that_need_refresh (fst b) k = Some False \<and>
          zones_that_need_refresh (fst c) k = Some True"
      unfolding scan_frame_def by blast
    from ab bc show ?thesis by auto
  qed
  have s: "same_setup (fst a) (fst c)"
    using assms same_setup_trans unfolding scan_frame_def by blast
  show ?thesis unfolding scan_frame_def using t f s by blast
qed

lemma paint_frame_refl [simp]: "paint_frame s s"
  unfolding paint_frame_def by (auto intro: exI [of _ "[]"])

lemma paint_frame_trans:
  assumes "paint_frame a b" and "paint_frame b c"
  shows "paint_frame a c"
proof -
  from assms(1) obtain e1 where
    t1: "trace (snd b) = trace (snd a) @ e1" and
    f1: "zones_that_need_refresh (fst b) =
          (\<lambda>k. if k \<in> set (pasted_keys e1) then Some False else zones_that_need_refresh (fst a) k)" and
    p1: "\<forall>ev \<in> set e1. \<exists>k z x y. ev = Paste k (get_image z) x y \<and> map_of (zones (fst a)) k = Some z" and
    d1: "distinct (pasted_keys e1)" and
    u1: "\<forall>k \<in> set (pasted_keys e1). zones_that_need_refresh (fst a) k = Some True"
    unfolding paint_frame_def by blast
  from assms(2) obtain e2 where
    t2: "trace (snd c) = trace (snd b) @ e2" and
    f2: "zones_that_need_refresh (fst c) =
          (\<lambda>k. if k \<in> set (pasted_keys e2) then Some False else zones_that_need_refresh (fst b) k)" and
    p2: "\<forall>ev \<in> set e2. \<exists>k z x y. ev = Paste k (get_image z) x y \<and> map_of (zones (fst b)) k = Some z" and
    d2: "distinct (pasted_keys e2)" and
    u2: "\<forall>k \<in> set (pasted_keys e2). zones_that_need_refresh (fst b) k = Some True"
    unfolding paint_frame_def by blast
  have z: "zones (fst b) = zones (fst a)" "zones (fst c) = zones (fst a)"
    using assms unfolding paint_frame_def by simp_all
  have s: "same_setup (fst a) (fst c)"
    using assms same_setup_trans unfolding paint_frame_def by blast
  have t: "trace (snd c) = trace (snd a) @ (e1 @ e2)" using t1 t2 by simp
  have f: "zones_that_need_refresh (fst c) =
          (\<lambda>k. if k \<in> set (pasted_keys (e1 @ e2)) then Some False else zones_that_need_refresh (fst a) k)"
    by (rule ext) (simp add: f1 f2)
  have p: "\<forall>ev \<in> set (e1 @ e2). \<exists>k z x y. ev = Paste k (get_image z) x y \<and> map_of (zones (fst a)) k = Some z"
    using p1 p2 z by auto
  have n: "k \<notin> set (pasted_keys e1) \<and> zones_that_need_refresh (fst a) k = Some True"
    if "k \<in> set (pasted_keys e2)" for k
  proof -
    from u2 that have "zones_that_need_refresh (fst b) k = Some True" by blast
    then show ?thesis by (simp add: f1 split: if_splits)
  qed
  have d: "distinct (pasted_keys (e1 @ e2))" using d1 d2 n by auto
  have u: "\<forall>k \<in> set (pasted_keys (e1 @ e2)). zones_that_need_refresh (fst a) k = Some True"
    using u1 n by auto
  show ?thesis unfolding paint_frame_def using s z t f p d u by blast
qed

lemma refresh_trace:
  "refresh z e = (b, z', e') \<Longrightarrow> \<exists>evs. trace e' = trace e @ evs \<and> pasted_keys evs = []"
  by (auto simp add: refresh_def needs_refresh_def update_image_def
      split: prod.splits option.splits if_splits)

lemma update_same_keys:
  "map_of al k = Some v \<Longrightarrow> map fst (AList.update k v' al) = map fst al"
  by (simp add: update_keys) (metis domI dom_map_of_conv_image_fst)

lemma refresh_False: "refresh z e = (False, z', e') \<Longrightarrow> z' = z"
  by (auto simp add: refresh_def needs_refresh_def split: prod.splits if_splits)

lemma scan_item_frame: "scan_item item s = (r, s') \<Longrightarrow> scan_frame s s'"
proof (cases item)
  case (Str k)
  obtain zm e where s: "s = (zm, e)" by (cases s)
  assume a: "scan_item item s = (r, s')"
  show ?thesis
  proof (cases "map_of (zones zm) k")
    case None
    then show ?thesis using a Str s
      by (auto simp add: scan_frame_def split: if_splits)
  next
    case (Some zone)
    obtain b zone' e' where r: "refresh zone e = (b, zone', e')" by (cases "refresh zone e") auto
    from refresh_trace[OF r] obtain evs where t: "trace e' = trace e @ evs" "pasted_keys evs = []" by blast
    have k: "same_setup zm (zm\<lparr>zones := AList.update k zone' (zones zm)\<rparr>)"
      using update_same_keys[OF Some] by (simp add: same_setup_def)
    have u: "b \<or> map_of (AList.update k zone' (zones zm)) = map_of (zones zm)"
      using refresh_False[of zone e zone' e'] r Some by (cases b) (auto simp add: update_conv')
    show ?thesis using a Str s Some r t k u
      by (auto simp add: scan_frame_def same_setup_def Let_def update_conv' split: if_splits option.splits)
  qed
qed (auto)

lemma scan_items_frame: "scan_items row s = (r, s') \<Longrightarrow> scan_frame s s'"
proof (induction row arbitrary: s)
  case Nil
  then show ?case by simp
next
  case (Cons item row)
  obtain r1 s1 where i: "scan_item item s = (r1, s1)" by (cases "scan_item item s")
  show ?case
  proof (cases r1)
    case (Inl err)
    then show ?thesis using Cons.prems i scan_item_frame[OF i] by simp
  next
    case (Inr u)
    then have "scan_items row s1 = (r, s')" using Cons.prems i by simp
    from Cons.IH[OF this] scan_item_frame[OF i] show ?thesis by (rule scan_frame_trans[rotated])
  qed
qed

lemma scan_rows_frame: "scan_rows rows acc s = (r, s') \<Longrightarrow> scan_frame s s'"
proof (induction rows arbitrary: acc s)
  case Nil
  then show ?case by simp
next
  case (Cons row rows)
  obtain r1 s1 where i: "scan_items row s = (r1, s1)" by (cases "scan_items row s")
  note f = scan_items_frame[OF i]
  show ?case
  proof (cases r1)
    case (Inl err)
    then show ?thesis using Cons.prems i f by simp
  next
    case (Inr u)
    show ?thesis
    proof (cases "comprehension (get_element_height (fst s1)) row")
      case (Inl err)
      then show ?thesis using Cons.prems i f Inr by simp
    next
      case (Inr hs)
      then have "scan_rows rows (acc @ [row_height_of hs]) s1 = (r, s')"
        using Cons.prems i \<open>r1 = Inr u\<close> by simp
      from Cons.IH[OF this] f show ?thesis by (rule scan_frame_trans[rotated])
    qed
  qed
qed

lemma scan_rows_length:
  "scan_rows rows acc s = (Inr rhs, s') \<Longrightarrow> length rhs = length acc + length rows"
proof (induction rows arbitrary: acc s)
  case Nil
  then show ?case by simp
next
  case (Cons row rows)
  then show ?case
    by (fastforce split: prod.splits sum.splits)
qed

lemma comprehension_length: "comprehension f xs = Inr ys \<Longrightarrow> length ys = length xs"
  by (induction xs arbitrary: ys) (auto split: sum.splits)

lemma redistribute_length [simp]: "length (redistribute a xs) = length xs"
  by (simp add: redistribute_def Let_def)

lemma paint_item_frame: "paint_item item wd x y s = (r, s') \<Longrightarrow> paint_frame s s'"
proof -
  assume a: "paint_item item wd x y s = (r, s')"
  obtain zm e where s: "s = (zm, e)" by (cases s)
  have "s' = s \<or> (\<exists>k z. map_of (zones zm) k = Some z \<and>
      zones_that_need_refresh zm k = Some True \<and>
      s' = (zm\<lparr>zones_that_need_refresh := (zones_that_need_refresh zm)(k \<mapsto> False)\<rparr>,
            e\<lparr>trace := trace e @ [Paste k (get_image z) x y]\<rparr>))"
    using a s by (auto simp add: paint_item_def split: cell.splits option.splits if_splits)
  then show ?thesis
  proof
    assume "s' = s" then show ?thesis by simp
  next
    assume "\<exists>k z. map_of (zones zm) k = Some z \<and>
      zones_that_need_refresh zm k = Some True \<and>
      s' = (zm\<lparr>zones_that_need_refresh := (zones_that_need_refresh zm)(k \<mapsto> False)\<rparr>,
            e\<lparr>trace := trace e @ [Paste k (get_image z) x y]\<rparr>)"
    then obtain k z where kz: "map_of (zones zm) k = Some z" and
      tr: "zones_that_need_refresh zm k = Some True" and
      s': "s' = (zm\<lparr>zones_that_need_refresh := (zones_that_need_refresh zm)(k \<mapsto> False)\<rparr>,
            e\<lparr>trace := trace e @ [Paste k (get_image z) x y]\<rparr>)" by blast
    show ?thesis unfolding paint_frame_def
      using kz tr s s' by (auto simp add: same_setup_def intro!: exI[of _ "[Paste k (get_image z) x y]"])
  qed
qed

lemma paint_item_clears:
  "paint_item (Str k) wd x y s = (Inr x', s') \<Longrightarrow> map_of (zones (fst s)) k = Some z \<Longrightarrow>
   zones_that_need_refresh (fst s') k = Some False"
  by (cases s) (auto simp add: paint_item_def split: option.splits if_splits)

lemma paint_frame_False:
  "paint_frame s s' \<Longrightarrow> zones_that_need_refresh (fst s) k = Some False \<Longrightarrow>
   zones_that_need_refresh (fst s') k = Some False"
  unfolding paint_frame_def by auto

lemma paint_items_frame: "paint_items iws x y s = (r, s') \<Longrightarrow> paint_frame s s'"
proof (induction iws arbitrary: x s)
  case Nil
  then show ?case by simp
next
  case (Cons iw iws)
  obtain item wd where iw: "iw = (item, wd)" by (cases iw)
  obtain r1 s1 where i: "paint_item item wd x y s = (r1, s1)" by (cases "paint_item item wd x y s")
  note f = paint_item_frame[OF i]
  show ?case
  proof (cases r1)
    case (Inl err)
    then show ?thesis using Cons.prems i iw f by simp
  next
    case (Inr x1)
    then have "paint_items iws x1 y s1 = (r, s')" using Cons.prems i iw by simp
    from Cons.IH[OF this] f show ?thesis by (rule paint_frame_trans[rotated])
  qed
qed

lemma paint_items_clears:
  "paint_items iws x y s = (Inr x', s') \<Longrightarrow> Str k \<in> fst ` set iws \<Longrightarrow>
   map_of (zones (fst s)) k = Some z \<Longrightarrow> zones_that_need_refresh (fst s') k = Some False"
proof (induction iws arbitrary: x s)
  case Nil
  then show ?case by simp
next
  case (Cons iw iws)
  obtain item wd where iw: "iw = (item, wd)" by (cases iw)
  obtain r1 s1 where i: "paint_item item wd x y s = (r1, s1)" by (cases "paint_item item wd x y s")
  from Cons.prems(1) i iw obtain x1 where r1: "r1 = Inr x1" and rest: "paint_items iws x1 y s1 = (Inr x', s')"
    by (cases r1) auto
  have z1: "zones (fst s1) = zones (fst s)" using paint_item_frame[OF i] by (simp add: paint_frame_def)
  show ?case
  proof (cases "Str k \<in> fst ` set iws")
    case True
    then show ?thesis using Cons.IH[OF rest True] Cons.prems(3) z1 by simp
  next
    case False
    then have "item = Str k" using Cons.prems(2) iw by auto
    then have "zones_that_need_refresh (fst s1) k = Some False"
      using paint_item_clears[of k wd x y s x1 s1 z] i r1 Cons.prems(3) by simp
    then show ?thesis using paint_frame_False[OF paint_items_frame[OF rest]] by simp
  qed
qed

lemma paint_row_frame: "paint_row row rh y s = (r, s') \<Longrightarrow> paint_frame s s'"
  by (auto simp add: paint_row_def split: sum.splits prod.splits dest: paint_items_frame)

lemma paint_row_clears:
  assumes "paint_row row rh y s = (Inr y', s')" and "Str k \<in> set row"
    and "map_of (zones (fst s)) k = Some z"
  shows "zones_that_need_refresh (fst s') k = Some False"
proof -
  from assms(1) obtain ws x where
    c: "comprehension (get_element_width (fst s)) row = Inr ws" and
    p: "paint_items (zip row (redistribute (o_width (fst s)) ws)) 0 y s = (Inr x, s')"
    by (auto simp add: paint_row_def split: sum.splits prod.splits)
  have "length (redistribute (o_width (fst s)) ws) = length row"
    using comprehension_length[OF c] by simp
  then have "fst ` set (zip row (redistribute (o_width (fst s)) ws)) = set row"
    by (metis list.set_map map_fst_zip)
  then show ?thesis using paint_items_clears[OF p _ assms(3)] assms(2) by simp
qed

lemma paint_rows_frame: "paint_rows rrs y s = (r, s') \<Longrightarrow> paint_frame s s'"
proof (induction rrs arbitrary: y s)
  case Nil
  then show ?case by simp
next
  case (Cons rr rrs)
  obtain row rh where rr: "rr = (row, rh)" by (cases rr)
  obtain r1 s1 where i: "paint_row row rh y s = (r1, s1)" by (cases "paint_row row rh y s")
  note f = paint_row_frame[OF i]
  show ?case
  proof (cases r1)
    case (Inl err)
    then show ?thesis using Cons.prems i rr f by simp
  next
    case (Inr y1)
    then have "paint_rows rrs y1 s1 = (r, s')" using Cons.prems i rr by simp
    from Cons.IH[OF this] f show ?thesis by (rule paint_frame_trans[rotated])
  qed
qed

lemma paint_rows_clears:
  "paint_rows rrs y s = (Inr y', s') \<Longrightarrow> row \<in> fst ` set rrs \<Longrightarrow> Str k \<in> set row \<Longrightarrow>
   map_of (zones (fst s)) k = Some z \<Longrightarrow> zones_that_need_refresh (fst s') k = Some False"
proof (induction rrs arbitrary: y s)
  case Nil
  then show ?case by simp
next
  case (Cons rr rrs)
  obtain row1 rh where rr: "rr = (row1, rh)" by (cases rr)
  obtain r1 s1 where i: "paint_row row1 rh y s = (r1, s1)" by (cases "paint_row row1 rh y s")
  from Cons.prems(1) i rr obtain y1 where r1: "r1 = Inr y1" and rest: "paint_rows rrs y1 s1 = (Inr y', s')"
    by (cases r1) auto
  have z1: "zones (fst s1) = zones (fst s)" using paint_row_frame[OF i] by (simp add: paint_frame_def)
  show ?case
  proof (cases "row \<in> fst ` set rrs")
    case True
    then show ?thesis using Cons.IH[OF rest True Cons.prems(3)] Cons.prems(4) z1 by simp
  next
    case False
    then have "row1 = row" using Cons.prems(2) rr by auto
    then have "zones_that_need_refresh (fst s1) k = Some False"
      using paint_row_clears[of row rh y s y1 s1 k z] i r1 Cons.prems(3,4) by simp
    then show ?thesis using paint_frame_False[OF paint_rows_frame[OF rest]] by simp
  qed
qed

lemma events_since_append: "trace e' = trace e @ evs \<Longrightarrow> events_since e e' = evs"
  by (simp add: events_since_def)

lemma pasted_keys_mem: "k \<in> set (pasted_keys evs) \<longleftrightarrow> (\<exists>im x y. Paste k im x y \<in> set evs)"
  by (induction evs rule: pasted_keys.induct) auto

lemma show_zm_parts:
  assumes "show_zm s = (r, s')"
  shows "\<exists>s1 s2. scan_frame s s1 \<and> paint_frame s1 s2 \<and> fst s' = fst s2 \<and>
     (\<exists>d. trace (snd s') = trace (snd s2) @ d \<and> pasted_keys d = []) \<and>
     (r = Inr () \<longrightarrow> (\<exists>rhs y. scan_rows (markup (fst s)) [] s = (Inr rhs, s1) \<and>
        paint_rows (zip (markup (fst s1)) (redistribute (o_height (fst s1)) rhs)) 0 s1 = (Inr y, s2)))"
proof -
  obtain r1 s1 where sc: "scan_rows (markup (fst s)) [] s = (r1, s1)"
    by (cases "scan_rows (markup (fst s)) [] s")
  note f1 = scan_rows_frame[OF sc]
  show ?thesis
  proof (cases r1)
    case (Inl err)
    then have "s' = s1" "r = Inl err" using assms sc by (simp_all add: show_zm_def row_height_pass_def)
    then show ?thesis using f1 paint_frame_refl[of s1]
      by (intro exI[of _ s1] conjI) auto
  next
    case (Inr rhs)
    obtain r2 s2 where pr: "paint_rows (zip (markup (fst s1)) (redistribute (o_height (fst s1)) rhs)) 0 s1 = (r2, s2)"
      by (cases "paint_rows (zip (markup (fst s1)) (redistribute (o_height (fst s1)) rhs)) 0 s1")
    note f2 = paint_rows_frame[OF pr]
    show ?thesis
    proof (cases r2)
      case (Inl err)
      then have "s' = s2" "r = Inl err" using assms sc pr Inr by (simp_all add: show_zm_def row_height_pass_def)
      then show ?thesis using f1 f2
        by (intro exI[of _ s1] exI[of _ s2] conjI) auto
    next
      case (Inr y)
      then have "fst s' = fst s2 \<and> trace (snd s') = trace (snd s2) @ [Display] \<and> r = Inr ()"
        using assms sc pr \<open>r1 = Inr rhs\<close>
        by (auto simp add: show_zm_def row_height_pass_def split: prod.splits)
      then show ?thesis using f1 f2 sc pr \<open>r1 = Inr rhs\<close> Inr
        by (intro exI[of _ s1] exI[of _ s2] conjI) auto
    qed
  qed
qed

lemma show_zm_flags:
  assumes "show_zm (zm, e) = (r, (zm', e'))"
  shows "trace e' = trace e @ events_since e e' \<and>
     (\<forall>k. (k \<in> set (pasted_keys (events_since e e')) \<longrightarrow> zones_that_need_refresh zm' k = Some False) \<and>
          (zones_that_need_refresh zm k = Some True \<and> k \<notin> set (pasted_keys (events_since e e')) \<longrightarrow>
             zones_that_need_refresh zm' k = Some True) \<and>
          (zones_that_need_refresh zm' k = Some False \<and> k \<notin> set (pasted_keys (events_since e e')) \<longrightarrow>
             zones_that_need_refresh zm k = Some False \<and> map_of (zones zm') k = map_of (zones zm) k))"
proof -
  from show_zm_parts[OF assms] obtain s1 s2 d where
    f1: "scan_frame (zm, e) s1" and f2: "paint_frame s1 s2" and zm': "zm' = fst s2" and
    d: "trace e' = trace (snd s2) @ d" "pasted_keys d = []" by auto
  from f1 obtain e1 where e1: "trace (snd s1) = trace e @ e1" "pasted_keys e1 = []"
    and m: "\<And>k. zones_that_need_refresh (fst s1) k = zones_that_need_refresh zm k \<and>
            (zones_that_need_refresh zm k = Some False \<longrightarrow> map_of (zones (fst s1)) k = map_of (zones zm) k) \<or>
          zones_that_need_refresh zm k = Some False \<and> zones_that_need_refresh (fst s1) k = Some True"
    by (auto simp add: scan_frame_def)
  from f2 obtain e2 where e2: "trace (snd s2) = trace (snd s1) @ e2"
    and p: "zones_that_need_refresh (fst s2) =
          (\<lambda>k. if k \<in> set (pasted_keys e2) then Some False else zones_that_need_refresh (fst s1) k)"
    and z2: "zones (fst s2) = zones (fst s1)"
    unfolding paint_frame_def by blast
  have t: "trace e' = trace e @ (e1 @ e2 @ d)" using e1 e2 d by simp
  have es: "events_since e e' = e1 @ e2 @ d" by (rule events_since_append[OF t])
  have pk: "pasted_keys (events_since e e') = pasted_keys e2" using es e1 d by simp
  have "(k \<in> set (pasted_keys e2) \<longrightarrow> zones_that_need_refresh zm' k = Some False) \<and>
          (zones_that_need_refresh zm k = Some True \<and> k \<notin> set (pasted_keys e2) \<longrightarrow>
             zones_that_need_refresh zm' k = Some True) \<and>
          (zones_that_need_refresh zm' k = Some False \<and> k \<notin> set (pasted_keys e2) \<longrightarrow>
             zones_that_need_refresh zm k = Some False \<and> map_of (zones zm') k = map_of (zones zm) k)" for k
    using m[of k] by (auto simp add: zm' p z2)
  then show ?thesis using t es pk by simp
qed

lemma update_append:
  "nm \<notin> fst ` set pre \<Longrightarrow> AList.update nm v (pre @ (nm, v0) # rest) = pre @ (nm, v) # rest"
  by (induction pre) auto

lemma refresh_on_start_items_eq:
  assumes "distinct (map fst (pre @ items))" and "zones zm = pre @ items"
  shows "refresh_on_start_items items (zm, e) =
     (zm\<lparr>zones := pre @ fst (refresh_all items e),
         zones_that_need_refresh :=
           (\<lambda>k. if k \<in> fst ` set items then Some True else zones_that_need_refresh zm k)\<rparr>,
      snd (refresh_all items e))"
  using assms
proof (induction items arbitrary: pre zm e)
  case Nil
  then show ?case by simp
next
  case (Cons item items)
  obtain nm zone where item: "item = (nm, zone)" by (cases item)
  obtain b zone' e' where r: "refresh zone e = (b, zone', e')" by (cases "refresh zone e") auto
  let ?zm1 = "zm\<lparr>zones := AList.update nm zone' (zones zm),
              zones_that_need_refresh := (zones_that_need_refresh zm)(nm \<mapsto> True)\<rparr>"
  have nm: "nm \<notin> fst ` set pre" using Cons.prems(1) item by auto
  have z1: "zones ?zm1 = (pre @ [(nm, zone')]) @ items"
    using update_append[OF nm, of zone' zone items] Cons.prems(2) item by simp
  have d1: "distinct (map fst ((pre @ [(nm, zone')]) @ items))"
    using Cons.prems(1) item by simp
  have "refresh_on_start_items (item # items) (zm, e) = refresh_on_start_items items (?zm1, e')"
    using item r by simp
  also have "\<dots> = (?zm1\<lparr>zones := (pre @ [(nm, zone')]) @ fst (refresh_all items e'),
         zones_that_need_refresh :=
           (\<lambda>k. if k \<in> fst ` set items then Some True else zones_that_need_refresh ?zm1 k)\<rparr>,
      snd (refresh_all items e'))"
    by (rule Cons.IH[OF d1 z1])
  also have "\<dots> = (zm\<lparr>zones := pre @ fst (refresh_all (item # items) e),
         zones_that_need_refresh :=
           (\<lambda>k. if k \<in> fst ` set (item # items) then Some True else zones_that_need_refresh zm k)\<rparr>,
      snd (refresh_all (item # items) e))"
    using item r by (auto simp add: fun_eq_iff split: prod.splits)
  finally show ?case .
qed

lemma ZoneManager_eq:
  assumes "distinct (map fst zs)"
  shows "ZoneManager w h mk zs e =
     (\<lparr>zones = fst (refresh_all zs e), markup = mk,
       zones_that_need_refresh = (\<lambda>k. if k \<in> fst ` set zs then Some True else None),
       o_width = w, o_height = h\<rparr>, snd (refresh_all zs e))"
  using refresh_on_start_items_eq[of "[]" zs _ e] assms
  by (simp add: ZoneManager_def refresh_on_start_def cong: if_cong)

lemma refresh_all_keys: "map fst (fst (refresh_all zs e)) = map fst zs"
proof (induction zs arbitrary: e)
  case Nil
  then show ?case by simp
next
  case (Cons kz zs)
  obtain k z where kz: "kz = (k, z)" by (cases kz)
  obtain b z' e' where r: "refresh z e = (b, z', e')" by (cases "refresh z e") auto
  show ?case using Cons.IH[of e'] kz r by (cases "refresh_all zs e'") simp
qed

lemmas zm_defs = ZoneManager_def refresh_on_start_def show_zm_def row_height_pass_def
  paint_row_def paint_item_def row_height_of_def redistribute_def get_image_def

lemmas run_defs = zm_defs ex_defs events_since_def

lemma shows_zm_flags:
  "shows_zm ws (zm, e) = (zm2, e2) \<Longrightarrow>
   trace e2 = trace e @ events_since e e2 \<and>
   (\<forall>k. zones_that_need_refresh zm k = Some True \<and> k \<notin> set (pasted_keys (events_since e e2)) \<longrightarrow>
        zones_that_need_refresh zm2 k = Some True)"
proof (induction ws arbitrary: zm e)
  case Nil
  then show ?case by (simp add: events_since_def)
next
  case (Cons w ws)
  obtain r zm1 e1 where sh: "show_zm (zm, e\<lparr>world := w\<rparr>) = (r, (zm1, e1))"
    by (cases "show_zm (zm, e\<lparr>world := w\<rparr>)") auto
  from show_zm_flags[OF sh] have t1: "trace e1 = trace e @ events_since (e\<lparr>world := w\<rparr>) e1"
    and k1: "\<And>k. zones_that_need_refresh zm k = Some True \<and>
                 k \<notin> set (pasted_keys (events_since (e\<lparr>world := w\<rparr>) e1)) \<longrightarrow>
                 zones_that_need_refresh zm1 k = Some True"
    by simp_all
  have rest: "shows_zm ws (zm1, e1) = (zm2, e2)" using Cons.prems sh by simp
  from Cons.IH[OF rest] have t2: "trace e2 = trace e1 @ events_since e1 e2"
    and k2: "\<And>k. zones_that_need_refresh zm1 k = Some True \<and> k \<notin> set (pasted_keys (events_since e1 e2)) \<longrightarrow>
        zones_that_need_refresh zm2 k = Some True"
    by simp_all
  have t: "trace e2 = trace e @ (events_since (e\<lparr>world := w\<rparr>) e1 @ events_since e1 e2)"
    using t1 t2 by simp
  have es: "events_since e e2 = events_since (e\<lparr>world := w\<rparr>) e1 @ events_since e1 e2"
    by (rule events_since_append[OF t])
  show ?case using t k1 k2 by (simp add: es)
qed

lemma scan_item_sets:
  "map_of (zones zm) k = Some z \<Longrightarrow> fst (refresh z e) \<Longrightarrow> zones_that_need_refresh zm k \<noteq> None \<Longrightarrow>
   zones_that_need_refresh (fst (snd (scan_item (Str k) (zm, e)))) k = Some True"
  by (auto simp add: Let_def split: prod.splits option.splits)

subsection \<open>Dirty flags\<close>

text \<open>
  Claim C5. Let \<^verbatim>\<open>show()\<close> run from any state, returning or raising. The events it adds
  to the trace are \<open>events_since e e'\<close>. For every key: if the zone's image is pasted
  in this pass its flag is false afterwards; if its flag was true and its image is not
  pasted, the flag is still true; and if its flag is false afterwards without a paste,
  it was false before and the zone has not changed. Over any sequence of shows, a flag
  that was true stays true unless the zone's image is pasted. And in the first loop, a
  \<^verbatim>\<open>refresh()\<close> that reports a change leaves the flag of its zone true.
\<close>

theorem dirty_flags_sticky:
  assumes "show_zm (zm, e) = (r, (zm', e'))" and "shows_zm ws (zm, e) = (zm2, e2)"
  shows "trace e' = trace e @ events_since e e' \<and>
     (\<forall>k. (k \<in> set (pasted_keys (events_since e e')) \<longrightarrow> zones_that_need_refresh zm' k = Some False) \<and>
          (zones_that_need_refresh zm k = Some True \<and> k \<notin> set (pasted_keys (events_since e e')) \<longrightarrow>
             zones_that_need_refresh zm' k = Some True) \<and>
          (zones_that_need_refresh zm' k = Some False \<and> k \<notin> set (pasted_keys (events_since e e')) \<longrightarrow>
             zones_that_need_refresh zm k = Some False \<and> map_of (zones zm') k = map_of (zones zm) k)) \<and>
     trace e2 = trace e @ events_since e e2 \<and>
     (\<forall>k. zones_that_need_refresh zm k = Some True \<and> k \<notin> set (pasted_keys (events_since e e2)) \<longrightarrow>
          zones_that_need_refresh zm2 k = Some True) \<and>
     (\<forall>k z. map_of (zones zm) k = Some z \<and> fst (refresh z e) \<and> zones_that_need_refresh zm k \<noteq> None \<longrightarrow>
          zones_that_need_refresh (fst (snd (scan_item (Str k) (zm, e)))) k = Some True)"
  using show_zm_flags[OF assms(1)] shows_zm_flags[OF assms(2)] scan_item_sets[of zm _ _ e]
  by blast

theorem dirty_flags_sticky_witness:
  "fst (show_zm zm_stuck) = Inl TypeError \<and>
   zones_that_need_refresh (fst zm_stuck) ''clock'' = Some True \<and>
   ''clock'' \<notin> set (pasted_keys (events_since (snd zm_stuck) (snd (snd (show_zm zm_stuck))))) \<and>
   zones_that_need_refresh (fst (snd (show_zm zm_stuck))) ''clock'' = Some True \<and>
   ''clock'' \<notin> set (pasted_keys (events_since (snd zm_stuck) (snd (shows_zm [2, 3] zm_stuck)))) \<and>
   zones_that_need_refresh (fst (shows_zm [2, 3] zm_stuck)) ''clock'' = Some True \<and>
   ''clock'' \<in> set (pasted_keys (events_since (snd zm_clock) (snd (snd (show_zm zm_clock))))) \<and>
   zones_that_need_refresh (fst (snd (show_zm zm_clock))) ''clock'' = Some False"
proof -
  have r: "fst (show_zm zm_stuck) = Inl TypeError" by (simp add: zm_stuck_def run_defs)
  have f: "zones_that_need_refresh (fst zm_stuck) ''clock'' = Some True"
    by (simp add: zm_stuck_def run_defs)
  have n1: "''clock'' \<notin> set (pasted_keys (events_since (snd zm_stuck) (snd (snd (show_zm zm_stuck)))))"
    by (simp add: zm_stuck_def run_defs)
  have n2: "''clock'' \<notin> set (pasted_keys (events_since (snd zm_stuck) (snd (shows_zm [2, 3] zm_stuck))))"
    by (simp add: zm_stuck_def run_defs)
  have sh: "show_zm (fst zm_stuck, snd zm_stuck) =
      (fst (show_zm zm_stuck), (fst (snd (show_zm zm_stuck)), snd (snd (show_zm zm_stuck))))"
    and shs: "shows_zm [2, 3] (fst zm_stuck, snd zm_stuck) =
      (fst (shows_zm [2, 3] zm_stuck), snd (shows_zm [2, 3] zm_stuck))"
    by simp_all
  from dirty_flags_sticky [OF sh shs] f n1 n2
  have a: "zones_that_need_refresh (fst (snd (show_zm zm_stuck))) ''clock'' = Some True"
    and b: "zones_that_need_refresh (fst (shows_zm [2, 3] zm_stuck)) ''clock'' = Some True"
    by blast+
  have p: "''clock'' \<in> set (pasted_keys (events_since (snd zm_clock) (snd (snd (show_zm zm_clock)))))"
    by (simp add: zm_clock_def run_defs)
  have sh2: "show_zm (fst zm_clock, snd zm_clock) =
      (fst (show_zm zm_clock), (fst (snd (show_zm zm_clock)), snd (snd (show_zm zm_clock))))"
    and shs2: "shows_zm [] (fst zm_clock, snd zm_clock) = (fst zm_clock, snd zm_clock)"
    by simp_all
  from dirty_flags_sticky [OF sh2 shs2] p
  have c: "zones_that_need_refresh (fst (snd (show_zm zm_clock))) ''clock'' = Some False"
    by blast
  show ?thesis using r f n1 a n2 b p c by blast
qed

lemma count_list_distinct: "distinct xs \<Longrightarrow> k \<in> set xs \<Longrightarrow> count_list xs k = 1"
  by (induction xs) auto

text \<open>
  Claim C7, as amended. For a zone collection with distinct keys, construction leaves
  the zones as a refresh of every zone leaves them, and the flag of every key of the
  collection true. A first \<^verbatim>\<open>show()\<close> after construction that returns has pasted the
  image of every zone whose key is in a cell of the markup, exactly once, however
  many cells hold that key.
\<close>

theorem first_show_paints_every_zone:
  assumes "distinct (map fst zs)"
  shows "ZoneManager w h mk zs e =
       (\<lparr>zones = fst (refresh_all zs e), markup = mk,
         zones_that_need_refresh = (\<lambda>k. if k \<in> fst ` set zs then Some True else None),
         o_width = w, o_height = h\<rparr>, snd (refresh_all zs e)) \<and>
     (\<forall>zm' e'. show_zm (ZoneManager w h mk zs e) = (Inr (), (zm', e')) \<longrightarrow>
        (\<forall>row \<in> set mk. \<forall>k. Str k \<in> set row \<and> k \<in> fst ` set zs \<longrightarrow>
           (\<exists>z x y. map_of (zones zm') k = Some z \<and>
              Paste k (get_image z) x y \<in> set (events_since (snd (ZoneManager w h mk zs e)) e')) \<and>
           count_list (pasted_keys (events_since (snd (ZoneManager w h mk zs e)) e')) k = 1))"
proof -
  let ?s0 = "ZoneManager w h mk zs e"
  note eq = ZoneManager_eq[OF assms, of w h mk e]
  have f0: "zones_that_need_refresh (fst ?s0) k = Some True" if "k \<in> fst ` set zs" for k
    using that by (simp add: eq)
  have k0: "map fst (zones (fst ?s0)) = map fst zs" and m0: "markup (fst ?s0) = mk"
    by (simp_all add: eq refresh_all_keys)
  have "(\<exists>z x y. map_of (zones zm') k = Some z \<and>
              Paste k (get_image z) x y \<in> set (events_since (snd ?s0) e')) \<and>
        count_list (pasted_keys (events_since (snd ?s0) e')) k = 1"
    if sh: "show_zm ?s0 = (Inr (), (zm', e'))" and row: "row \<in> set mk" and k: "Str k \<in> set row"
      and kz: "k \<in> fst ` set zs" for zm' e' row k
  proof -
    from show_zm_parts[OF sh] obtain s1 s2 d rhs y where
      f1: "scan_frame ?s0 s1" and f2: "paint_frame s1 s2" and zm': "zm' = fst s2" and
      d: "trace e' = trace (snd s2) @ d" "pasted_keys d = []" and
      sc: "scan_rows (markup (fst ?s0)) [] ?s0 = (Inr rhs, s1)" and
      pr: "paint_rows (zip (markup (fst s1)) (redistribute (o_height (fst s1)) rhs)) 0 s1 = (Inr y, s2)"
      by auto
    from f1 have m1: "markup (fst s1) = mk" and k1: "map fst (zones (fst s1)) = map fst zs"
      using m0 k0 by (simp_all add: scan_frame_def same_setup_def)
    from f1 obtain e1 where e1: "trace (snd s1) = trace (snd ?s0) @ e1" "pasted_keys e1 = []"
      by (auto simp add: scan_frame_def)
    from f1 have "zones_that_need_refresh (fst s1) k = zones_that_need_refresh (fst ?s0) k \<or>
        zones_that_need_refresh (fst s1) k = Some True"
      unfolding scan_frame_def by blast
    with f0[OF kz] have fl1: "zones_that_need_refresh (fst s1) k = Some True"
      by auto
    have "k \<in> fst ` set (zones (fst s1))" using kz k1 by (metis list.set_map)
    then obtain z where z: "map_of (zones (fst s1)) k = Some z"
      by (metis domD dom_map_of_conv_image_fst)
    have len: "length rhs = length mk" using scan_rows_length[OF sc] m0 by simp
    have "fst ` set (zip (markup (fst s1)) (redistribute (o_height (fst s1)) rhs)) = set mk"
      using len m1 by (metis list.set_map map_fst_zip redistribute_length)
    with row have "row \<in> fst ` set (zip (markup (fst s1)) (redistribute (o_height (fst s1)) rhs))"
      by simp
    from paint_rows_clears[OF pr this k z]
    have fl2: "zones_that_need_refresh (fst s2) k = Some False" .
    from f2 obtain e2 where e2: "trace (snd s2) = trace (snd s1) @ e2"
      and p: "zones_that_need_refresh (fst s2) =
          (\<lambda>k. if k \<in> set (pasted_keys e2) then Some False else zones_that_need_refresh (fst s1) k)"
      and dist: "distinct (pasted_keys e2)"
      and im: "\<forall>ev \<in> set e2. \<exists>k z x y. ev = Paste k (get_image z) x y \<and> map_of (zones (fst s1)) k = Some z"
      and z2: "zones (fst s2) = zones (fst s1)"
      unfolding paint_frame_def by blast
    from fl1 fl2 p have mem: "k \<in> set (pasted_keys e2)" by (auto split: if_splits)
    then obtain i x y where pe: "Paste k i x y \<in> set e2" by (auto simp add: pasted_keys_mem)
    with im z have i: "i = get_image z" by fastforce
    have "trace e' = trace (snd ?s0) @ (e1 @ e2 @ d)" using e1 e2 d by simp
    from events_since_append[OF this] have es: "events_since (snd ?s0) e' = e1 @ e2 @ d" .
    have pk: "pasted_keys (events_since (snd ?s0) e') = pasted_keys e2"
      using es e1(2) d(2) by simp
    have once: "count_list (pasted_keys (events_since (snd ?s0) e')) k = 1"
      using count_list_distinct[OF dist mem] pk by simp
    have "Paste k i x y \<in> set (events_since (snd ?s0) e')" using es pe by simp
    then show ?thesis using i z z2 zm' once by auto
  qed
  then show ?thesis using eq by blast
qed

theorem first_show_paints_every_zone_witness:
  "distinct (map fst [(''clock'', zone_ex)]) \<and>
   zones_that_need_refresh (fst zm_twice) ''clock'' = Some True \<and>
   fst (show_zm zm_twice) = Inr () \<and>
   (\<exists>z x y. map_of (zones (fst (snd (show_zm zm_twice)))) ''clock'' = Some z \<and>
      Paste ''clock'' (get_image z) x y \<in> set (events_since (snd zm_twice) (snd (snd (show_zm zm_twice))))) \<and>
   count_list (pasted_keys (events_since (snd zm_twice) (snd (snd (show_zm zm_twice))))) ''clock'' = 1"
proof -
  have d: "distinct (map fst [(''clock'', zone_ex)])" by simp
  have r: "fst (show_zm zm_twice) = Inr ()" by (simp add: zm_twice_def run_defs)
  then have r': "show_zm zm_twice = (Inr (), (fst (snd (show_zm zm_twice)), snd (snd (show_zm zm_twice))))"
    by (metis prod.collapse)
  have f: "zones_that_need_refresh (fst zm_twice) ''clock'' = Some True"
    by (simp add: zm_twice_def run_defs)
  note p = first_show_paints_every_zone [OF d, of 128 64 "[[Str ''clock'', Str ''clock'']]" "env_at 0",
      THEN conjunct2, folded zm_twice_def, rule_format, OF r', of "[Str ''clock'', Str ''clock'']" "''clock''"]
  have "(\<exists>z x y. map_of (zones (fst (snd (show_zm zm_twice)))) ''clock'' = Some z \<and>
      Paste ''clock'' (get_image z) x y \<in> set (events_since (snd zm_twice) (snd (snd (show_zm zm_twice))))) \<and>
      count_list (pasted_keys (events_since (snd zm_twice) (snd (snd (show_zm zm_twice))))) ''clock'' = 1"
    by (rule p) simp_all
  then show ?thesis using d f r by blast
qed

text \<open>
  Claim C7 as stated fails. With the key \<^verbatim>\<open>clock\<close> in two cells of a row, the first
  \<^verbatim>\<open>show()\<close> pastes the zone at \<open>x = 0\<close> and clears its flag, and skips the second
  cell, at \<open>x = 10\<close>, as not dirty. With a filler row above the zone on a display
  as high as the zone's image, the first \<^verbatim>\<open>show()\<close> raises before it pastes anything.
\<close>

theorem first_show_leaves_cells_unpainted:
  "fst (show_zm zm_twice) = Inr () \<and>
   trace (snd (snd (show_zm zm_twice))) =
     [ImageCb (Some 0), ImageCb (Some 1),
      Paste ''clock'' (Some \<lparr>ident = 1, width = 10, height = 8\<rparr>) 0 0, Display] \<and>
   fst (show_zm zm_stuck) = Inl TypeError \<and>
   trace (snd (snd (show_zm zm_stuck))) = [ImageCb (Some 0), ImageCb (Some 1)]"
  by (simp add: zm_twice_def zm_stuck_def run_defs)

subsection \<open>Layout\<close>

lemma sum_filter_None:
  "sum_list (filter_None xs) = (\<Sum>h\<leftarrow>xs. case h of None \<Rightarrow> 0 | Some v \<Rightarrow> v)"
  by (induction xs rule: filter_None.induct) simp_all

lemma redistribute_nth:
  assumes "0 < a - sum_list (filter_None xs)" and "i < length xs"
  shows "redistribute a xs ! i =
     (case xs ! i of None \<Rightarrow> Some ((a - sum_list (filter_None xs)) div int (count_list xs None))
                   | Some v \<Rightarrow> Some v)"
proof (cases "count_list xs None = 0")
  case True
  then have "None \<notin> set xs" by (simp add: count_list_0_iff)
  then have "xs ! i \<noteq> None" using assms(2) by (metis nth_mem)
  then show ?thesis using True by (auto simp add: redistribute_def)
next
  case False
  then show ?thesis using assms by (simp add: redistribute_def Let_def)
qed



lemma filter_None_empty: "filter_None hs = [] \<longleftrightarrow> (\<forall>h \<in> set hs. h = None \<or> h = Some 0)"
  by (induction hs rule: filter_None.induct) auto

lemma max_py2_None: "max_py2 hs = None \<longleftrightarrow> (\<forall>h \<in> set hs. h = None)"
  by (induction hs) (auto split: option.splits)

lemma filter_None_zero: "filter_None (xs @ Some 0 # ys) = filter_None (xs @ ys)"
  by (induction xs rule: filter_None.induct) simp_all

lemma filter_None_None: "filter_None (xs @ None # ys) = filter_None (xs @ ys)"
  by (induction xs rule: filter_None.induct) simp_all

lemma redistribute_keeps:
  "i < length xs \<Longrightarrow> xs ! i = Some v \<Longrightarrow> redistribute a xs ! i = Some v"
  by (simp add: redistribute_def Let_def)

text \<open>
  Claim C10, as amended. In the row-height pass a cell of height 0 counts as a cell of
  no known height when the height of its row is decided: the row height is \<^verbatim>\<open>None\<close>
  exactly when every cell of the row has height \<^verbatim>\<open>None\<close> or 0, and such a row gets
  its share of the leftover. In both passes a size 0 is left out of the list of known
  sizes that is summed, as \<^verbatim>\<open>None\<close> is. In the column-width pass a cell of width 0
  is not an auto cell: it keeps width 0.
\<close>

theorem zero_size_cells:
  "(row_height_of hs = None \<longleftrightarrow> (\<forall>h \<in> set hs. h = None \<or> h = Some 0)) \<and>
   filter_None (xs @ Some 0 # ys) = filter_None (xs @ None # ys) \<and>
   (0 < D - sum_list (filter_None rhs) \<and> i < length rhs \<and> rhs ! i = None \<longrightarrow>
      redistribute D rhs ! i =
        Some ((D - sum_list (filter_None rhs)) div int (count_list rhs None))) \<and>
   (j < length ws \<and> ws ! j = Some 0 \<longrightarrow> redistribute W ws ! j = Some 0)"
proof -
  have a: "row_height_of hs = None \<longleftrightarrow> (\<forall>h \<in> set hs. h = None \<or> h = Some 0)"
  proof (cases "filter_None hs = []")
    case True
    then show ?thesis using filter_None_empty[of hs] by (simp add: row_height_of_def)
  next
    case False
    then have n: "\<not> (\<forall>h \<in> set hs. h = None \<or> h = Some 0)"
      using filter_None_empty[of hs] by simp
    then have "\<not> (\<forall>h \<in> set hs. h = None)" by blast
    then have "max_py2 hs \<noteq> None" using max_py2_None[of hs] by simp
    then have "row_height_of hs \<noteq> None" using False by (simp add: row_height_of_def)
    with n show ?thesis by blast
  qed
  show ?thesis
    using a redistribute_nth[of D rhs i] redistribute_keeps[of j ws 0 W]
    by (simp add: filter_None_zero filter_None_None)
qed

theorem zero_size_cells_witness:
  "row_height_of [Some 0, None] = None \<and>
   filter_None [Some 0, Some 3] = filter_None [None, Some 3] \<and>
   redistribute 64 [Some 8, None] ! 1 = Some 56 \<and>
   redistribute 128 [Some 0, None] ! 0 = Some 0"
  using zero_size_cells [of "[Some 0, None]" "[]" "[Some 3]" 64 "[Some 8, None]" 1 0 "[Some 0, None]" 128]
  by simp

text \<open>
  Claim C10 as stated fails in the column-width pass: before a zone of width 10 on a
  display of width 128, a spacer of value 0 takes no width and the zone is pasted at
  \<open>x = 0\<close>, while a cell of no known width takes the leftover 118.
\<close>

theorem zero_width_not_auto:
  "trace (snd (snd (show_zm zm_zero_spacer))) =
     [ImageCb (Some 0), ImageCb (Some 1),
      Paste ''clock'' (Some \<lparr>ident = 2, width = 10, height = 8\<rparr>) 0 0, Display] \<and>
   trace (snd (snd (show_zm zm_filler))) =
     [ImageCb (Some 0), ImageCb (Some 1),
      Paste ''clock'' (Some \<lparr>ident = 2, width = 10, height = 8\<rparr>) 118 0, Display]"
  by (simp add: zm_zero_spacer_def zm_filler_def run_defs)

text \<open>
  Claim C3 fails on the code. A display of height 64, a first row with a vertical
  spacer of 64 and a second row with a filler: nothing is left to redistribute, the
  height of the second row stays \<^verbatim>\<open>None\<close>, and \<^verbatim>\<open>y += row_height\<close> raises TypeError.
\<close>

theorem show_raises_without_leftover:
  "fst (row_height_pass zm_fixed_rows) = Inr [Some 64, None] \<and>
   show_zm zm_fixed_rows = (Inl TypeError, zm_fixed_rows)"
  by (simp add: zm_fixed_rows_def run_defs)

text \<open>
  A string that is no key of the collection changes nothing in the first loop but the
  trace: a warning is logged unless the string is made of the filler character only.
\<close>

lemma scan_item_unknown:
  "map_of (zones zm) k = None \<Longrightarrow>
   scan_item (Str k) (zm, e) =
     (Inr (), (zm, if list_all (\<lambda>char. char = CHR ''.'') k then e
                   else e\<lparr>trace := trace e @ [Warning (''Zone '' @ k @ '' unknown!'')]\<rparr>))"
  by simp

text \<open>
  Claim C8 fails on the code. A display of width 128 and the row of the unknown key
  \<^verbatim>\<open>ZZZ\<close> and a spacer of 128: the warning is logged, the width of the unknown cell
  stays \<^verbatim>\<open>None\<close>, and \<^verbatim>\<open>x += width\<close> raises TypeError.
\<close>

theorem show_raises_on_unknown_key:
  "fst (show_zm zm_unknown_key) = Inl TypeError \<and>
   trace (snd (snd (show_zm zm_unknown_key))) = [Warning ''Zone ZZZ unknown!'']"
  by (simp add: zm_unknown_key_def run_defs)

end
